theory Spec2Isabelle
  imports Complex_Main
begin

section \<open>Errors\<close>

text \<open>
  The exceptions the two source files can raise. The specification's
  \<open>ConfigurationError\<close> and \<open>PartitionAssertionFailure\<close> are the
  \<^verbatim>\<open>AssertionError\<close> of a failed \<^verbatim>\<open>assert\<close>; its
  \<open>UnsupportedOperationError\<close> and \<open>UnsupportedPayloadError\<close> are both
  \<^verbatim>\<open>NotImplementedError\<close>, told apart by their message.
  \<open>MPIException\<close> is an error reported by the message-passing library, and
  \<open>CollectiveMismatch\<close> marks a collective call that the other processes of the
  communicator do not match in kind or shape: the library leaves that case undefined
  (usually a hang), and the model stops there.
\<close>

datatype error =
    AssertionError
  | NotImplementedError string
  | NameError string
  | TypeError
  | ZeroDivisionError
  | OverflowError
  | MPIException
  | CollectiveMismatch

section \<open>comm\_utils.py: splitCommunicators\<close>

text \<open>
  \<^verbatim>\<open>comm_world\<close> as the calling process sees it: its own rank and the number of
  processes (\<^verbatim>\<open>comm_world.rank\<close>, \<^verbatim>\<open>comm_world.size\<close>; the fields are named
  after the methods of the same meaning).
\<close>

record comm_world =
  Get_rank :: nat
  Get_size :: nat

text \<open>
  \<^verbatim>\<open>color = np.floor(mpi_rank/n_instances)\<close> and
  \<^verbatim>\<open>key = np.remainder(mpi_rank,n_instances)\<close>. Both round towards minus
  infinity, as \<open>div\<close> and \<open>mod\<close> on \<open>int\<close> do; the floating-point number that
  \<^verbatim>\<open>np.floor\<close> gives is taken as the integer it holds. Every process evaluates the
  same two formulas on its own rank.
\<close>

definition color :: "int \<Rightarrow> nat \<Rightarrow> int" where
  "color n_instances mpi_rank = int mpi_rank div n_instances"

definition key :: "int \<Rightarrow> nat \<Rightarrow> int" where
  "key n_instances mpi_rank = int mpi_rank mod n_instances"

text \<open>
  \<^verbatim>\<open>comm.Split(color, key)\<close> of the message-passing library, called by every
  process of a communicator of \<open>n\<close> processes, process \<open>q\<close> passing \<open>c q\<close> and
  \<open>k q\<close>: the new communicator of process \<open>r\<close> holds the processes that passed the
  colour of \<open>r\<close>, ranked by key, ties broken by the old rank (\<open>sort_key\<close> is
  stable). It is given as the list of its members' old ranks, in the order of their new
  ranks. A negative colour is an error of the library.
\<close>

definition Split :: "nat \<Rightarrow> (nat \<Rightarrow> int) \<Rightarrow> (nat \<Rightarrow> int) \<Rightarrow> nat \<Rightarrow> error + nat list" where
  "Split n c k r =
     (if c r < 0 then Inl MPIException
      else Inr (sort_key k (filter (\<lambda>q. c q = c r) [0..<n])))"

text \<open>
  The state threaded through \<open>splitCommunicators\<close> is the list of the communicators
  constructed so far.
\<close>

type_synonym communicators = "nat list list"

definition splitCommunicators ::
  "comm_world \<Rightarrow> int \<Rightarrow> int \<Rightarrow> communicators \<Rightarrow> (error + nat list \<times> nat list) \<times> communicators" where
  "splitCommunicators comm_world n_subdomain n_instances s =
     (let mpi_rank = Get_rank comm_world;
          world_size = Get_size comm_world
      in if int world_size \<noteq> n_subdomain * n_instances then (Inl AssertionError, s)
         else if n_instances = 0 then (Inl ZeroDivisionError, s)
         else
           (case Split world_size (color n_instances) (key n_instances) mpi_rank of
              Inl e \<Rightarrow> (Inl e, s)
            | Inr mesh_constructor_comm \<Rightarrow>
                (case Split world_size (key n_instances) (color n_instances) mpi_rank of
                   Inl e \<Rightarrow> (Inl e, s @ [mesh_constructor_comm])
                 | Inr collective_comm \<Rightarrow>
                     (Inr (mesh_constructor_comm, collective_comm),
                      s @ [mesh_constructor_comm, collective_comm]))))"

text \<open>The first and the second communicator that a call returns.\<close>

definition mesh_constructor_comm :: "comm_world \<Rightarrow> int \<Rightarrow> int \<Rightarrow> error + nat list" where
  "mesh_constructor_comm comm_world n_subdomain n_instances =
     map_sum id fst (fst (splitCommunicators comm_world n_subdomain n_instances []))"

definition collective_comm :: "comm_world \<Rightarrow> int \<Rightarrow> int \<Rightarrow> error + nat list" where
  "collective_comm comm_world n_subdomain n_instances =
     map_sum id snd (fst (splitCommunicators comm_world n_subdomain n_instances []))"

section \<open>collective.py: payloads and the transport\<close>

text \<open>
  The payload kinds that \<^verbatim>\<open>allReduce\<close> and \<^verbatim>\<open>bcast\<close> tell apart, in the
  order of their tests:
  \<^item> \<open>Float\<close>: \<^verbatim>\<open>type(v) in [float, np.float64]\<close>; double precision values are
    modelled as reals, so rounding is not part of the model;
  \<^item> \<open>Integer\<close>: \<^verbatim>\<open>type(v) in [int, np.int, np.int32]\<close>;
  \<^item> \<open>NdArray\<close>: a numpy array of doubles, as the list of its elements;
  \<^item> \<open>Vector\<close>: an object with \<^verbatim>\<open>mpi_comm\<close> and \<^verbatim>\<open>get_local\<close> (a
    \<^verbatim>\<open>dolfin.Vector\<close>): its local segment, the size of the communicator it is
    partitioned over, and whether a \<^verbatim>\<open>set_local\<close> still awaits its
    \<^verbatim>\<open>apply\<close>;
  \<^item> \<open>MultiVector\<close>: an object with \<^verbatim>\<open>nvec\<close>, as the list of its entries
    \<^verbatim>\<open>v[i]\<close>;
  \<^item> \<open>Other\<close>: anything else, with the text of \<^verbatim>\<open>type(v)\<close>.
\<close>

datatype payload =
    Float real
  | Integer int
  | NdArray "real list"
  | Vector "real list" nat bool
  | MultiVector "payload list"
  | Other string

text \<open>
  What a call hands back: the very object it was given, or a value of its own making
  (a new scalar; for \<^verbatim>\<open>comm.bcast\<close> the unpickled message).
\<close>

datatype returned = TheArgument | NewValue payload

text \<open>The methods of a \<^verbatim>\<open>dolfin.Vector\<close> that the code calls.\<close>

fun get_local :: "payload \<Rightarrow> real list" where
  "get_local (Vector xs n pending) = xs"
| "get_local v = []"

fun set_local :: "payload \<Rightarrow> real list \<Rightarrow> payload" where
  "set_local (Vector xs n pending) ys = Vector ys n True"
| "set_local v ys = v"

fun apply_vector :: "payload \<Rightarrow> payload" where
  "apply_vector (Vector xs n pending) = Vector xs n False"
| "apply_vector v = v"

text \<open>
  \<^verbatim>\<open>op.lower()\<close>. Strings are byte strings; only the letters A to Z change.
\<close>

definition lower_char :: "char \<Rightarrow> char" where
  "lower_char c =
     (case map_of (zip ''ABCDEFGHIJKLMNOPQRSTUVWXYZ'' ''abcdefghijklmnopqrstuvwxyz'') c of
        None \<Rightarrow> c
      | Some d \<Rightarrow> d)"

definition str_lower :: "string \<Rightarrow> string" where
  "str_lower s = map lower_char s"

text \<open>
  \<^verbatim>\<open>np.array([v], dtype=np.int32)\<close>: a Python integer that fits a C long is cut
  to its low 32 bits, read as a signed number; a larger one raises
  \<^verbatim>\<open>OverflowError\<close>. The sum that the transport computes on 32-bit integers wraps
  the same way.
\<close>

definition wrap32 :: "int \<Rightarrow> int" where
  "wrap32 x = (x + 2 ^ 31) mod 2 ^ 32 - 2 ^ 31"

definition int32_of :: "int \<Rightarrow> error + int" where
  "int32_of v = (if - (2 ^ 63) \<le> v \<and> v < 2 ^ 63 then Inr (wrap32 v) else Inl OverflowError)"

text \<open>
  The communicator of a collective, seen from the calling process, is given by the
  payloads that the processes of lower rank (\<open>lo\<close>) and of higher rank (\<open>up\<close>) pass
  to the same call, in rank order. They run the same code, so what each of them sends
  follows from its payload: \<open>send_DOUBLE\<close> is the buffer it passes to
  \<^verbatim>\<open>Allreduce\<close> with \<^verbatim>\<open>MPI.DOUBLE\<close>, \<open>send_INT\<close> the one with
  \<^verbatim>\<open>MPI.INT\<close>, \<open>send_bcast\<close> the object it passes to \<^verbatim>\<open>comm.bcast\<close>;
  \<open>None\<close> when it makes no such call.
\<close>

definition comm_size :: "payload list \<Rightarrow> payload list \<Rightarrow> nat" where
  "comm_size lo up = length lo + 1 + length up"

definition comm_rank :: "payload list \<Rightarrow> payload list \<Rightarrow> nat" where
  "comm_rank lo up = length lo"

fun send_DOUBLE :: "bool \<Rightarrow> payload \<Rightarrow> real list option" where
  "send_DOUBLE ck (Float x) = Some [x]"
| "send_DOUBLE ck (NdArray xs) = Some xs"
| "send_DOUBLE ck (Vector xs n pending) = (if ck \<and> n \<noteq> 1 then None else Some xs)"
| "send_DOUBLE ck v = None"

fun send_INT :: "payload \<Rightarrow> int list option" where
  "send_INT (Integer v) = (case int32_of v of Inl e \<Rightarrow> None | Inr s \<Rightarrow> Some [s])"
| "send_INT v = None"

fun send_bcast :: "bool \<Rightarrow> payload \<Rightarrow> payload option" where
  "send_bcast ck (Float x) = Some (Float x)"
| "send_bcast ck (Integer v) = Some (Integer v)"
| "send_bcast ck (NdArray xs) = Some (NdArray xs)"
| "send_bcast ck (Vector xs n pending) = (if ck \<and> n \<noteq> 1 then None else Some (NdArray xs))"
| "send_bcast ck v = None"

text \<open>
  \<^verbatim>\<open>comm.Allreduce([send, t], [receive, t], op = MPI.SUM)\<close>: every process passes a
  buffer of the same length, and \<open>receive\<close> is their elementwise sum.
\<close>

definition Allreduce_SUM ::
  "('a::comm_monoid_add) list option list \<Rightarrow> 'a list \<Rightarrow> 'a list option list \<Rightarrow> error + 'a list" where
  "Allreduce_SUM lo send up =
     (case those (lo @ Some send # up) of
        None \<Rightarrow> Inl CollectiveMismatch
      | Some bufs \<Rightarrow>
          if list_all (\<lambda>buf. length buf = length send) bufs
          then Inr (map (\<lambda>k. sum_list (map (\<lambda>buf. buf ! k) bufs)) [0..<length send])
          else Inl CollectiveMismatch)"

text \<open>
  \<^verbatim>\<open>comm.bcast(obj, root = root)\<close>: every process is handed the object that the
  process of rank \<open>root_rank\<close> passed.
\<close>

definition comm_bcast ::
  "payload option list \<Rightarrow> payload \<Rightarrow> payload option list \<Rightarrow> int \<Rightarrow> error + payload" where
  "comm_bcast lo obj up root_rank =
     (if 0 \<le> root_rank \<and> root_rank < int (length lo + 1 + length up)
      then (case (lo @ Some obj # up) ! nat root_rank of
              None \<Rightarrow> Inl CollectiveMismatch
            | Some w \<Rightarrow> Inr w)
      else Inl MPIException)"

text \<open>The entry \<^verbatim>\<open>v[i]\<close> that a process of the communicator passes in round \<open>i\<close>
  of the loop over a multi-vector.\<close>

fun entry :: "nat \<Rightarrow> payload \<Rightarrow> payload option" where
  "entry i (MultiVector es) = (if i < length es then Some (es ! i) else None)"
| "entry i v = None"

section \<open>collective.py: NullCollective\<close>

definition NullCollective_size :: nat where
  "NullCollective_size = 1"

definition NullCollective_rank :: nat where
  "NullCollective_rank = 0"

definition NullCollective_allReduce :: "payload \<Rightarrow> string \<Rightarrow> payload \<times> (error + returned)" where
  "NullCollective_allReduce v op =
     (if str_lower op \<notin> set [''sum'', ''avg'']
      then (v, Inl (NotImplementedError
                      (''Unknown operation *'' @ op @ ''* in NullCollective.allReduce'')))
      else (v, Inr TheArgument))"

definition NullCollective_bcast :: "payload \<Rightarrow> int \<Rightarrow> payload \<times> (error + returned)" where
  "NullCollective_bcast v root_rank = (v, Inr TheArgument)"

section \<open>collective.py: MultipleSamePartitioningPDEsCollective\<close>

definition err_msg :: "string \<Rightarrow> string" where
  "err_msg op = ''Unknown operation *'' @ op @ ''* in MultipleSerialPDEsCollective.allReduce''"

text \<open>
  \<open>allReduce is_serial_check lo up v op\<close> is the call \<^verbatim>\<open>self.allReduce(v, op)\<close>.
  It gives the payload object \<open>v\<close> as it is after the call, and what the call returns or
  raises. The \<^verbatim>\<open>else\<close> branch reads the name \<^verbatim>\<open>is_serial_check\<close>, which is
  neither a local nor a global of the module. \<open>allReduce_loop\<close> is the loop
  \<^verbatim>\<open>for i in range(v.nvec()): self.allReduce(v[i],op)\<close> from index \<open>i\<close> on, over
  the entries that are left; the value of each call is dropped.
\<close>

fun allReduce ::
    "bool \<Rightarrow> payload list \<Rightarrow> payload list \<Rightarrow> payload \<Rightarrow> string \<Rightarrow> payload \<times> (error + returned)"
  and allReduce_loop ::
    "bool \<Rightarrow> payload list \<Rightarrow> payload list \<Rightarrow> nat \<Rightarrow> payload list \<Rightarrow> string \<Rightarrow> payload list \<times> error option"
where
  "allReduce is_serial_check lo up (Float x) op =
     (case Allreduce_SUM (map (send_DOUBLE is_serial_check) lo) [x]
             (map (send_DOUBLE is_serial_check) up) of
        Inl e \<Rightarrow> (Float x, Inl e)
      | Inr receive \<Rightarrow>
          if str_lower op = ''sum'' then (Float x, Inr (NewValue (Float (receive ! 0))))
          else if str_lower op = ''avg''
          then (Float x, Inr (NewValue (Float (receive ! 0 / real (comm_size lo up)))))
          else (Float x, Inl (NotImplementedError (err_msg (str_lower op)))))"
| "allReduce is_serial_check lo up (Integer v) op =
     (case int32_of v of
        Inl e \<Rightarrow> (Integer v, Inl e)
      | Inr s \<Rightarrow>
          (case Allreduce_SUM (map send_INT lo) [s] (map send_INT up) of
             Inl e \<Rightarrow> (Integer v, Inl e)
           | Inr summed \<Rightarrow>
               let receive = map wrap32 summed
               in if str_lower op = ''sum'' then (Integer v, Inr (NewValue (Integer (receive ! 0))))
                  else if str_lower op = ''avg''
                  then (Integer v, Inr (NewValue (Integer (receive ! 0 div int (comm_size lo up)))))
                  else (Integer v, Inl (NotImplementedError (err_msg (str_lower op))))))"
| "allReduce is_serial_check lo up (NdArray xs) op =
     (case Allreduce_SUM (map (send_DOUBLE is_serial_check) lo) xs
             (map (send_DOUBLE is_serial_check) up) of
        Inl e \<Rightarrow> (NdArray xs, Inl e)
      | Inr receive \<Rightarrow>
          if str_lower op = ''sum'' then (NdArray receive, Inr TheArgument)
          else if str_lower op = ''avg'' then (NdArray xs, Inr TheArgument)
          else (NdArray xs, Inl (NotImplementedError (err_msg (str_lower op)))))"
| "allReduce is_serial_check lo up (Vector xs n pending) op =
     (if is_serial_check \<and> n \<noteq> 1 then (Vector xs n pending, Inl AssertionError)
      else
        (case Allreduce_SUM (map (send_DOUBLE is_serial_check) lo) (get_local (Vector xs n pending))
                (map (send_DOUBLE is_serial_check) up) of
           Inl e \<Rightarrow> (Vector xs n pending, Inl e)
         | Inr receive \<Rightarrow>
             if str_lower op = ''sum''
             then (apply_vector (set_local (Vector xs n pending) receive), Inr TheArgument)
             else if str_lower op = ''avg''
             then (apply_vector (set_local (Vector xs n pending)
                     (map (\<lambda>x. x * (1 / real (comm_size lo up))) receive)), Inr TheArgument)
             else (Vector xs n pending, Inl (NotImplementedError (err_msg (str_lower op))))))"
| "allReduce is_serial_check lo up (MultiVector es) op =
     (case allReduce_loop is_serial_check lo up 0 es op of
        (es', Some e) \<Rightarrow> (MultiVector es', Inl e)
      | (es', None) \<Rightarrow> (MultiVector es', Inr TheArgument))"
| "allReduce is_serial_check lo up (Other t) op =
     (Other t, Inl (NameError ''is_serial_check''))"
| "allReduce_loop is_serial_check lo up i [] op = ([], None)"
| "allReduce_loop is_serial_check lo up i (e # es) op =
     (case (those (map (entry i) lo), those (map (entry i) up)) of
        (Some lo_i, Some up_i) \<Rightarrow>
          (case allReduce is_serial_check lo_i up_i e op of
             (e', Inl err) \<Rightarrow> (e' # es, Some err)
           | (e', Inr r) \<Rightarrow>
               (case allReduce_loop is_serial_check lo up (Suc i) es op of
                  (es', res) \<Rightarrow> (e' # es', res)))
      | _ \<Rightarrow> (e # es, Some CollectiveMismatch))"

text \<open>
  \<open>bcast is_serial_check lo up v root_rank\<close> is the call \<^verbatim>\<open>self.bcast(v, root)\<close>, with
  the same reading as \<open>allReduce\<close>. An object that is not an array of the length of the
  local segment cannot be stored by \<^verbatim>\<open>set_local\<close>.
\<close>

fun bcast ::
    "bool \<Rightarrow> payload list \<Rightarrow> payload list \<Rightarrow> payload \<Rightarrow> int \<Rightarrow> payload \<times> (error + returned)"
  and bcast_loop ::
    "bool \<Rightarrow> payload list \<Rightarrow> payload list \<Rightarrow> nat \<Rightarrow> payload list \<Rightarrow> int \<Rightarrow> payload list \<times> error option"
where
  "bcast is_serial_check lo up (Float x) root_rank =
     (Float x, map_sum id NewValue
        (comm_bcast (map (send_bcast is_serial_check) lo) (Float x)
           (map (send_bcast is_serial_check) up) root_rank))"
| "bcast is_serial_check lo up (Integer v) root_rank =
     (Integer v, map_sum id NewValue
        (comm_bcast (map (send_bcast is_serial_check) lo) (Integer v)
           (map (send_bcast is_serial_check) up) root_rank))"
| "bcast is_serial_check lo up (NdArray xs) root_rank =
     (NdArray xs, map_sum id NewValue
        (comm_bcast (map (send_bcast is_serial_check) lo) (NdArray xs)
           (map (send_bcast is_serial_check) up) root_rank))"
| "bcast is_serial_check lo up (Vector xs n pending) root_rank =
     (if is_serial_check \<and> n \<noteq> 1 then (Vector xs n pending, Inl AssertionError)
      else
        (case comm_bcast (map (send_bcast is_serial_check) lo)
                (NdArray (get_local (Vector xs n pending)))
                (map (send_bcast is_serial_check) up) root_rank of
           Inl e \<Rightarrow> (Vector xs n pending, Inl e)
         | Inr (NdArray v_local) \<Rightarrow>
             if length v_local = length xs
             then (apply_vector (set_local (Vector xs n pending) v_local), Inr TheArgument)
             else (Vector xs n pending, Inl CollectiveMismatch)
         | Inr w \<Rightarrow> (Vector xs n pending, Inl TypeError)))"
| "bcast is_serial_check lo up (MultiVector es) root_rank =
     (case bcast_loop is_serial_check lo up 0 es root_rank of
        (es', Some e) \<Rightarrow> (MultiVector es', Inl e)
      | (es', None) \<Rightarrow> (MultiVector es', Inr TheArgument))"
| "bcast is_serial_check lo up (Other t) root_rank =
     (Other t, Inl (NameError ''is_serial_check''))"
| "bcast_loop is_serial_check lo up i [] root_rank = ([], None)"
| "bcast_loop is_serial_check lo up i (e # es) root_rank =
     (case (those (map (entry i) lo), those (map (entry i) up)) of
        (Some lo_i, Some up_i) \<Rightarrow>
          (case bcast is_serial_check lo_i up_i e root_rank of
             (e', Inl err) \<Rightarrow> (e' # es, Some err)
           | (e', Inr r) \<Rightarrow>
               (case bcast_loop is_serial_check lo up (Suc i) es root_rank of
                  (es', res) \<Rightarrow> (e' # es', res)))
      | _ \<Rightarrow> (e # es, Some CollectiveMismatch))"

text \<open>\<^verbatim>\<open>MultipleSerialPDEsCollective(comm)\<close> is the same class with the check on.\<close>

definition MultipleSerialPDEsCollective_allReduce ::
  "payload list \<Rightarrow> payload list \<Rightarrow> payload \<Rightarrow> string \<Rightarrow> payload \<times> (error + returned)" where
  "MultipleSerialPDEsCollective_allReduce = allReduce True"

section \<open>The group seen as a whole\<close>

text \<open>
  When the processes of a communicator hold the payloads \<open>members\<close>, in rank order, the
  call of the process of rank \<open>r\<close> has the payloads before position \<open>r\<close> below it and
  those after it above.
\<close>

definition allReduce_at ::
  "bool \<Rightarrow> payload list \<Rightarrow> nat \<Rightarrow> string \<Rightarrow> payload \<times> (error + returned)" where
  "allReduce_at is_serial_check members r op =
     allReduce is_serial_check (take r members) (drop (Suc r) members) (members ! r) op"

definition bcast_at ::
  "bool \<Rightarrow> payload list \<Rightarrow> nat \<Rightarrow> int \<Rightarrow> payload \<times> (error + returned)" where
  "bcast_at is_serial_check members r root_rank =
     bcast is_serial_check (take r members) (drop (Suc r) members) (members ! r) root_rank"


text \<open>The payload kinds of the claims.\<close>

fun scalar_or_buffer :: "payload \<Rightarrow> bool" where
  "scalar_or_buffer (Float x) = True"
| "scalar_or_buffer (Integer v) = True"
| "scalar_or_buffer (NdArray xs) = True"
| "scalar_or_buffer v = False"

text \<open>
  A distributed vector with a local segment of \<open>len\<close> elements that passes the
  assertion of the serial check when that check is on.
\<close>

fun vector_ready :: "bool \<Rightarrow> nat \<Rightarrow> payload \<Rightarrow> bool" where
  "vector_ready ck len (Vector xs n pending) = ((if ck then n = 1 else True) \<and> length xs = len)"
| "vector_ready ck len v = False"

text \<open>A multi-vector of \<open>n\<close> entries, and its entry \<^verbatim>\<open>v[i]\<close>.\<close>

fun has_nvec :: "nat \<Rightarrow> payload \<Rightarrow> bool" where
  "has_nvec n (MultiVector es) = (length es = n)"
| "has_nvec n v = False"

fun getitem :: "nat \<Rightarrow> payload \<Rightarrow> payload" where
  "getitem i (MultiVector es) = es ! i"
| "getitem i v = v"

text \<open>
  A payload that is, or holds at some depth, a scalar, an array or a distributed
  vector: something a reduction is run on.
\<close>

fun has_leaf :: "payload \<Rightarrow> bool"
  and has_leaf_list :: "payload list \<Rightarrow> bool"
where
  "has_leaf (Float x) = True"
| "has_leaf (Integer v) = True"
| "has_leaf (NdArray xs) = True"
| "has_leaf (Vector xs n pending) = True"
| "has_leaf (MultiVector es) = has_leaf_list es"
| "has_leaf (Other t) = False"
| "has_leaf_list [] = False"
| "has_leaf_list (e # es) = (has_leaf e \<or> has_leaf_list es)"

section \<open>comm\_utils.py: the consistency checks\<close>

text \<open>
  \<open>checkFunctionSpaceConsistentPartitioning\<close> calls into the finite element library
  and the message-passing library. What those calls do is given by the environment of a
  call:
  \<^item> \<open>collective_rank\<close>: what \<^verbatim>\<open>collective.rank\<close> evaluates to, an integer when
    \<open>collective\<close> is a communicator of the message-passing library, a bound method
    when it is one of the two classes of collective.py;
  \<^item> \<open>interpolate_v\<close>, \<open>interpolate_root_v\<close>: whether the two calls of
    \<^verbatim>\<open>dl.interpolate\<close> raise;
  \<^item> \<open>collective_bcast\<close>: whether \<^verbatim>\<open>collective.bcast\<close> raises;
  \<^item> \<open>norm_below_tolerance\<close>: what \<^verbatim>\<open>diff.norm("l2") < 1e-10\<close> gives;
  \<^item> \<open>comm_world_allReduce\<close>: whether the call
    \<^verbatim>\<open>dl.MPI.comm_world.allReduce(...)\<close> raises.
\<close>

datatype rank_attribute = RankProperty int | RankMethod

record check_env =
  collective_rank :: rank_attribute
  interpolate_v :: "error option"
  interpolate_root_v :: "error option"
  collective_bcast :: "error option"
  norm_below_tolerance :: "error + bool"
  comm_world_allReduce :: "error option"

text \<open>
  Line 37 converts \<^verbatim>\<open>collective.rank\<close> with \<^verbatim>\<open>float\<close>, which raises
  \<^verbatim>\<open>TypeError\<close> on a bound method. Line 39 reads \<^verbatim>\<open>mesh\<close>, which is not a
  name of this function or of the module. The local \<^verbatim>\<open>tests_passed_everywhere\<close> is
  bound to \<^verbatim>\<open>False\<close> on line 45 and never bound again: calling a method with a
  list that holds it does not rebind it, so line 47 returns \<^verbatim>\<open>False\<close>.
\<close>

definition checkFunctionSpaceConsistentPartitioning :: "check_env \<Rightarrow> error + bool" where
  "checkFunctionSpaceConsistentPartitioning env =
     (case collective_rank env of
        RankMethod \<Rightarrow> Inl TypeError
      | RankProperty r \<Rightarrow>
          (case interpolate_v env of
             Some e \<Rightarrow> Inl e
           | None \<Rightarrow>
               if r = 0 then Inl (NameError ''mesh'')
               else
                 (case interpolate_root_v env of
                    Some e \<Rightarrow> Inl e
                  | None \<Rightarrow>
                      (case collective_bcast env of
                         Some e \<Rightarrow> Inl e
                       | None \<Rightarrow>
                           (case norm_below_tolerance env of
                              Inl e \<Rightarrow> Inl e
                            | Inr tests_passed_here \<Rightarrow>
                                (case comm_world_allReduce env of
                                   Some e \<Rightarrow> Inl e
                                 | None \<Rightarrow> Inr False))))))"

text \<open>
  \<open>checkMeshConsistentPartitioning\<close> runs the check on two function spaces, each call
  in an environment of its own, and returns \<^verbatim>\<open>t1 and t2\<close>.
\<close>

definition checkMeshConsistentPartitioning :: "check_env \<Rightarrow> check_env \<Rightarrow> error + bool" where
  "checkMeshConsistentPartitioning env_DG env_CG =
     (case checkFunctionSpaceConsistentPartitioning env_DG of
        Inl e \<Rightarrow> Inl e
      | Inr t1 \<Rightarrow>
          (case checkFunctionSpaceConsistentPartitioning env_CG of
             Inl e \<Rightarrow> Inl e
           | Inr t2 \<Rightarrow> Inr (t1 \<and> t2)))"

section \<open>Properties of splitCommunicators\<close>

lemma color_nat: "0 < n_instances \<Longrightarrow> color n_instances q = int (q div nat n_instances)"
  by (simp add: color_def zdiv_int)

lemma key_nat: "0 < n_instances \<Longrightarrow> key n_instances q = int (q mod nat n_instances)"
  by (simp add: key_def zmod_int)

lemma color_key_inj:
  assumes "0 < n_instances"
    and "color n_instances q = color n_instances r"
    and "key n_instances q = key n_instances r"
  shows "q = r"
proof -
  have "q div nat n_instances = r div nat n_instances"
    and "q mod nat n_instances = r mod nat n_instances"
    using assms by (simp_all add: color_nat key_nat)
  then show ?thesis by (metis div_mult_mod_eq)
qed

lemma color_floor: "color n_instances q = \<lfloor>real q / real_of_int n_instances\<rfloor>"
proof -
  have "real q = real_of_int (int q)" by simp
  then show ?thesis
    unfolding color_def by (simp only: floor_divide_of_int_eq)
qed

lemma color_nonneg: "0 < n_instances \<Longrightarrow> 0 \<le> color n_instances q"
  by (simp add: color_nat)

lemma key_nonneg: "0 < n_instances \<Longrightarrow> 0 \<le> key n_instances q"
  by (simp add: key_nat)

lemma splitCommunicators_ok:
  assumes "int world_size = n_subdomain * n_instances" and "0 < n_instances"
  shows "splitCommunicators \<lparr>Get_rank = r, Get_size = world_size\<rparr> n_subdomain n_instances s =
     (let mesh = sort_key (key n_instances)
                   (filter (\<lambda>q. color n_instances q = color n_instances r) [0..<world_size]);
          coll = sort_key (color n_instances)
                   (filter (\<lambda>q. key n_instances q = key n_instances r) [0..<world_size])
      in (Inr (mesh, coll), s @ [mesh, coll]))"
  using assms color_nonneg [OF assms(2), of r] key_nonneg [OF assms(2), of r]
  by (simp add: splitCommunicators_def Split_def Let_def)

text \<open>
  What the call gives on the code, for positive \<open>n_instances\<close> and
  \<open>n_subdomain * n_instances = world_size\<close>: the process of rank \<open>r\<close> is returned
  two communicators; \<open>color\<close> is \<open>floor (rank / n_instances)\<close> and \<open>key\<close> is
  \<open>rank mod n_instances\<close>, and no other rank has the same pair. The first communicator
  holds exactly the processes that share the colour of \<open>r\<close>, the second exactly those
  that share its key; they meet in \<open>r\<close> alone, and every member of either is returned
  the same communicator by its own call.
\<close>

lemma splitCommunicators_grid:
  assumes "int world_size = n_subdomain * n_instances" and "0 < n_instances" and "r < world_size"
  shows "\<exists>mesh coll.
     splitCommunicators \<lparr>Get_rank = r, Get_size = world_size\<rparr> n_subdomain n_instances s =
       (Inr (mesh, coll), s @ [mesh, coll]) \<and>
     color n_instances r = \<lfloor>real r / real_of_int n_instances\<rfloor> \<and>
     key n_instances r = int r mod n_instances \<and>
     (\<forall>q<world_size. color n_instances q = color n_instances r \<and>
         key n_instances q = key n_instances r \<longrightarrow> q = r) \<and>
     distinct mesh \<and> set mesh = {q. q < world_size \<and> color n_instances q = color n_instances r} \<and>
     distinct coll \<and> set coll = {q. q < world_size \<and> key n_instances q = key n_instances r} \<and>
     set mesh \<inter> set coll = {r} \<and>
     (\<forall>q\<in>set mesh. mesh_constructor_comm \<lparr>Get_rank = q, Get_size = world_size\<rparr>
         n_subdomain n_instances = Inr mesh) \<and>
     (\<forall>q\<in>set coll. collective_comm \<lparr>Get_rank = q, Get_size = world_size\<rparr>
         n_subdomain n_instances = Inr coll)"
proof -
  define mesh where "mesh = sort_key (key n_instances)
    (filter (\<lambda>q. color n_instances q = color n_instances r) [0..<world_size])"
  define coll where "coll = sort_key (color n_instances)
    (filter (\<lambda>q. key n_instances q = key n_instances r) [0..<world_size])"
  have split: "splitCommunicators \<lparr>Get_rank = r, Get_size = world_size\<rparr> n_subdomain n_instances s =
       (Inr (mesh, coll), s @ [mesh, coll])"
    using splitCommunicators_ok [OF assms(1,2)] by (simp add: mesh_def coll_def Let_def)
  have uniq: "\<forall>q<world_size. color n_instances q = color n_instances r \<and>
      key n_instances q = key n_instances r \<longrightarrow> q = r"
    using color_key_inj [OF assms(2)] by blast
  have dm: "distinct mesh" and dc: "distinct coll"
    by (simp_all add: mesh_def coll_def)
  have sm: "set mesh = {q. q < world_size \<and> color n_instances q = color n_instances r}"
    by (auto simp: mesh_def)
  have sc: "set coll = {q. q < world_size \<and> key n_instances q = key n_instances r}"
    by (auto simp: coll_def)
  have inter: "set mesh \<inter> set coll = {r}"
    using assms(3) uniq by (auto simp: sm sc)
  have same_mesh: "\<forall>q\<in>set mesh. mesh_constructor_comm \<lparr>Get_rank = q, Get_size = world_size\<rparr>
      n_subdomain n_instances = Inr mesh"
    using splitCommunicators_ok [OF assms(1,2)]
    by (simp add: sm mesh_constructor_comm_def mesh_def Let_def)
  have same_coll: "\<forall>q\<in>set coll. collective_comm \<lparr>Get_rank = q, Get_size = world_size\<rparr>
      n_subdomain n_instances = Inr coll"
    using splitCommunicators_ok [OF assms(1,2)]
    by (simp add: sc collective_comm_def coll_def Let_def)
  show ?thesis
    using split uniq dm dc sm sc inter same_mesh same_coll color_floor [of n_instances r]
    by (intro exI [of _ mesh] exI [of _ coll]) (simp add: key_def)
qed

lemma div_class_interval:
  assumes "0 < (n::nat)" and "r < m * n"
  shows "{q. q < m * n \<and> q div n = r div n} = {r div n * n..<r div n * n + n}"
proof -
  have c: "r div n < m" using assms by (simp add: less_mult_imp_div_less)
  have "(r div n + 1) * n \<le> m * n" using c by (intro mult_le_mono1) simp
  then have le: "r div n * n + n \<le> m * n" by (simp add: algebra_simps)
  show ?thesis
  proof (intro set_eqI iffI)
    fix q assume "q \<in> {q. q < m * n \<and> q div n = r div n}"
    then have "q div n = r div n" by simp
    then have "q = r div n * n + q mod n" by (metis div_mult_mod_eq)
    moreover have "q mod n < n" using assms(1) by simp
    ultimately show "q \<in> {r div n * n..<r div n * n + n}" by simp
  next
    fix q assume "q \<in> {r div n * n..<r div n * n + n}"
    then have lo: "r div n * n \<le> q" and hi: "q < r div n * n + n" by simp_all
    have "q div n = r div n"
      using lo hi assms(1)
      by (metis add.commute div_nat_eqI mult.commute mult_Suc_right)
    then show "q \<in> {q. q < m * n \<and> q div n = r div n}" using hi le by simp
  qed
qed

lemma mod_class_image:
  assumes "0 < (n::nat)"
  shows "{q. q < m * n \<and> q mod n = r mod n} = (\<lambda>c. c * n + r mod n) ` {..<m}"
proof (intro set_eqI iffI)
  fix q assume "q \<in> {q. q < m * n \<and> q mod n = r mod n}"
  then have q: "q < m * n" and md: "q mod n = r mod n" by simp_all
  have "q div n < m" using q assms by (simp add: less_mult_imp_div_less)
  moreover have "q = q div n * n + r mod n" using md by (metis div_mult_mod_eq)
  ultimately show "q \<in> (\<lambda>c. c * n + r mod n) ` {..<m}" by blast
next
  fix q assume "q \<in> (\<lambda>c. c * n + r mod n) ` {..<m}"
  then obtain c where c: "c < m" and q: "q = c * n + r mod n" by blast
  have "r mod n < n" using assms by simp
  then have "q < (c + 1) * n" using q by (simp add: algebra_simps)
  also have "\<dots> \<le> m * n" using c by (intro mult_le_mono1) simp
  finally have "q < m * n" .
  moreover have "q mod n = r mod n" using q by simp
  ultimately show "q \<in> {q. q < m * n \<and> q mod n = r mod n}" by simp
qed

lemma mod_class_card:
  assumes "0 < (n::nat)"
  shows "card {q. q < m * n \<and> q mod n = r mod n} = m"
proof -
  have "inj_on (\<lambda>c. c * n + r mod n) {..<m}"
    using assms by (auto simp: inj_on_def)
  then show ?thesis
    by (simp add: mod_class_image [OF assms] card_image)
qed

text \<open>
  The sizes on the code, in general: every mesh communicator has \<open>n_instances\<close>
  members and every collective communicator \<open>n_subdomain\<close>.
\<close>

lemma splitCommunicators_group_sizes:
  assumes "int world_size = n_subdomain * n_instances" and "0 < n_instances" and "r < world_size"
  shows "map_sum id length
           (mesh_constructor_comm \<lparr>Get_rank = r, Get_size = world_size\<rparr> n_subdomain n_instances) =
         Inr (nat n_instances)"
    and "map_sum id length
           (collective_comm \<lparr>Get_rank = r, Get_size = world_size\<rparr> n_subdomain n_instances) =
         Inr (nat n_subdomain)"
proof -
  define n where "n = nat n_instances"
  define m where "m = nat n_subdomain"
  have n: "0 < n" using assms(2) by (simp add: n_def)
  have "0 \<le> n_subdomain * n_instances" using assms(1) by (metis of_nat_0_le_iff)
  then have "0 \<le> n_subdomain" using assms(2) by (simp add: zero_le_mult_iff)
  then have W: "world_size = m * n"
    using assms(1,2) by (simp add: m_def n_def nat_mult_distrib [symmetric] nat_eq_iff)
  have r: "r < m * n" using assms(3) W by simp
  have col: "color n_instances q = color n_instances r \<longleftrightarrow> q div n = r div n" for q
    using assms(2) by (simp add: color_nat n_def)
  have ky: "key n_instances q = key n_instances r \<longleftrightarrow> q mod n = r mod n" for q
    using assms(2) by (simp add: key_nat n_def)
  let ?mesh = "sort_key (key n_instances)
                 (filter (\<lambda>q. color n_instances q = color n_instances r) [0..<world_size])"
  let ?coll = "sort_key (color n_instances)
                 (filter (\<lambda>q. key n_instances q = key n_instances r) [0..<world_size])"
  have "length ?mesh = card (set ?mesh)"
    by (rule distinct_card [symmetric]) simp
  also have "set ?mesh = {q. q < m * n \<and> q div n = r div n}"
    by (auto simp: W col)
  also have "card \<dots> = n"
    by (simp add: div_class_interval [OF n r])
  finally have lm: "length ?mesh = n" .
  have "length ?coll = card (set ?coll)"
    by (rule distinct_card [symmetric]) simp
  also have "set ?coll = {q. q < m * n \<and> q mod n = r mod n}"
    by (auto simp: W ky)
  also have "card \<dots> = m"
    by (rule mod_class_card [OF n])
  finally have lc: "length ?coll = m" .
  show "map_sum id length
           (mesh_constructor_comm \<lparr>Get_rank = r, Get_size = world_size\<rparr> n_subdomain n_instances) =
         Inr (nat n_instances)"
    using lm splitCommunicators_ok [OF assms(1,2), of r "[]"]
    by (simp add: mesh_constructor_comm_def Let_def n_def)
  show "map_sum id length
           (collective_comm \<lparr>Get_rank = r, Get_size = world_size\<rparr> n_subdomain n_instances) =
         Inr (nat n_subdomain)"
    using lc splitCommunicators_ok [OF assms(1,2), of r "[]"]
    by (simp add: collective_comm_def Let_def m_def)
qed

text \<open>
  C1 fails on the code. On six processes with \<open>n_subdomain = 2\<close> and
  \<open>n_instances = 3\<close> the call of rank 0 returns a mesh communicator of three members,
  the ranks 0, 1, 2, and a collective communicator of two, the ranks 0 and 3, where the
  claim has mesh groups of \<open>n_subdomain = 2\<close> processes and collective groups of
  \<open>n_instances = 3\<close>. The comment in the source makes colour the row of a grid whose
  rows are the instances, so a row has \<open>n_subdomain\<close> processes; lines 29 and 30 divide
  by \<open>n_instances\<close>. The sizes agree with the claim only when the two numbers are equal.
\<close>

theorem splitCommunicators_sizes_swapped:
  "mesh_constructor_comm \<lparr>Get_rank = 0, Get_size = 6\<rparr> 2 3 = Inr [0, 1, 2] \<and>
   collective_comm \<lparr>Get_rank = 0, Get_size = 6\<rparr> 2 3 = Inr [0, 3] \<and>
   map_sum id length (mesh_constructor_comm \<lparr>Get_rank = 0, Get_size = 6\<rparr> 2 3) = Inr 3 \<and>
   map_sum id length (collective_comm \<lparr>Get_rank = 0, Get_size = 6\<rparr> 2 3) = Inr 2"
  by (simp add: mesh_constructor_comm_def collective_comm_def splitCommunicators_def
        Split_def color_def key_def upt_conv_Cons)

text \<open>
  C6: when the size of the flat group is not \<open>n_subdomain * n_instances\<close>,
  \<open>splitCommunicators\<close> fails with the assertion error (the specification's
  ConfigurationError), and no communicator has been constructed: the list of
  communicators is the one the call started with.
\<close>

theorem splitCommunicators_dimension_mismatch:
  assumes "int (Get_size comm_world) \<noteq> n_subdomain * n_instances"
  shows "splitCommunicators comm_world n_subdomain n_instances s = (Inl AssertionError, s)"
  using assms by (simp add: splitCommunicators_def)

theorem splitCommunicators_dimension_mismatch_witness:
  "int (Get_size \<lparr>Get_rank = 0, Get_size = 5\<rparr>) \<noteq> 2 * 3 \<and>
   splitCommunicators \<lparr>Get_rank = 0, Get_size = 5\<rparr> 2 3 [] = (Inl AssertionError, [])"
  using splitCommunicators_dimension_mismatch [of "\<lparr>Get_rank = 0, Get_size = 5\<rparr>" 2 3 "[]"]
  by simp

section \<open>Properties of the transport and of scalar reductions\<close>

lemma those_map_Some: "those (map Some xs) = Some xs"
  by (induction xs) simp_all

lemma Allreduce_SUM_Some:
  assumes "list_all (\<lambda>buf. length buf = length send) (bl @ bu)"
  shows "Allreduce_SUM (map Some bl) send (map Some bu) =
     Inr (map (\<lambda>k. sum_list (map (\<lambda>buf. buf ! k) (bl @ send # bu))) [0..<length send])"
proof -
  have "map Some bl @ Some send # map Some bu = map Some (bl @ send # bu)" by simp
  then have "those (map Some bl @ Some send # map Some bu) = Some (bl @ send # bu)"
    by (simp only: those_map_Some)
  then show ?thesis using assms by (simp add: Allreduce_SUM_def)
qed



















section \<open>Properties of reductions of arrays, of unsupported payloads and of bcast\<close>

lemma allReduce_NdArray_avg_unchanged:
  "str_lower op = ''avg'' \<Longrightarrow> fst (allReduce ck lo up (NdArray xs) op) = NdArray xs"
  by (simp split: sum.splits)

text \<open>
  C3 fails on the code. Two processes hold the arrays \<open>[2, 10]\<close> and \<open>[4, 20]\<close>.
  With ``avg'' the array of the first is left as it was, where the claim has \<open>[3, 15]\<close>:
  line 102 compares \<^verbatim>\<open>v[:]\<close> with the scaled sum and drops the result. With ``sum''
  the array is overwritten with \<open>[6, 30]\<close>, by the assignment of line 100.
\<close>

theorem allReduce_array_avg_no_effect:
  "allReduce_at False [NdArray [2, 10], NdArray [4, 20]] 0 ''avg'' =
     (NdArray [2, 10], Inr TheArgument) \<and>
   allReduce_at False [NdArray [2, 10], NdArray [4, 20]] 0 ''sum'' =
     (NdArray [6, 30], Inr TheArgument)"
  by (simp add: allReduce_at_def Allreduce_SUM_def str_lower_def lower_char_def upt_conv_Cons)

text \<open>
  C8 fails on the code. For a payload of no supported kind, \<open>allReduce\<close> and \<open>bcast\<close>
  raise \<^verbatim>\<open>NameError\<close> for the name \<^verbatim>\<open>is_serial_check\<close>, whatever the operation,
  the root and the other processes: the \<^verbatim>\<open>else\<close> branches test
  \<^verbatim>\<open>is_serial_check\<close> where the attribute \<^verbatim>\<open>self.is_serial_check\<close> is meant, so
  the \<^verbatim>\<open>NotImplementedError\<close> whose message names the type is never raised.
\<close>

theorem unsupported_payload_NameError:
  "allReduce is_serial_check lo up (Other t) op = (Other t, Inl (NameError ''is_serial_check'')) \<and>
   bcast is_serial_check lo up (Other t) root_rank = (Other t, Inl (NameError ''is_serial_check''))"
  by simp

lemma checkFunctionSpaceConsistentPartitioning_not_True:
  "checkFunctionSpaceConsistentPartitioning env \<noteq> Inr True"
  by (simp add: checkFunctionSpaceConsistentPartitioning_def
        split: rank_attribute.splits option.splits sum.splits)

text \<open>
  C9 fails on the code. In a single-process run where every call into the libraries
  succeeds and the norm is below the tolerance, the check raises \<^verbatim>\<open>NameError\<close> for
  \<^verbatim>\<open>mesh\<close> when \<open>collective\<close> is a communicator, and \<^verbatim>\<open>TypeError\<close> when it is
  one of the collectives of collective.py. In no environment at all does either check
  return \<^verbatim>\<open>True\<close>.
\<close>

theorem consistency_check_never_True:
  "checkFunctionSpaceConsistentPartitioning
     \<lparr>collective_rank = RankProperty 0, interpolate_v = None, interpolate_root_v = None,
      collective_bcast = None, norm_below_tolerance = Inr True, comm_world_allReduce = None\<rparr> =
     Inl (NameError ''mesh'') \<and>
   checkFunctionSpaceConsistentPartitioning
     \<lparr>collective_rank = RankMethod, interpolate_v = None, interpolate_root_v = None,
      collective_bcast = None, norm_below_tolerance = Inr True, comm_world_allReduce = None\<rparr> =
     Inl TypeError \<and>
   checkFunctionSpaceConsistentPartitioning env \<noteq> Inr True \<and>
   checkMeshConsistentPartitioning env_DG env_CG \<noteq> Inr True"
proof -
  have "checkMeshConsistentPartitioning env_DG env_CG \<noteq> Inr True"
    using checkFunctionSpaceConsistentPartitioning_not_True [of env_DG]
    by (auto simp: checkMeshConsistentPartitioning_def split: sum.splits)
  then show ?thesis
    using checkFunctionSpaceConsistentPartitioning_not_True [of env]
    by (simp add: checkFunctionSpaceConsistentPartitioning_def)
qed

lemma send_bcast_scalar_or_buffer: "scalar_or_buffer v \<Longrightarrow> send_bcast ck v = Some v"
  by (cases v) simp_all

lemma comm_bcast_nth:
  assumes "0 \<le> root_rank" and "root_rank < int (comm_size lo up)"
    and "send_bcast ck v = Some obj"
  shows "comm_bcast (map (send_bcast ck) lo) obj (map (send_bcast ck) up) root_rank =
     (case send_bcast ck ((lo @ v # up) ! nat root_rank) of
        None \<Rightarrow> Inl CollectiveMismatch
      | Some w \<Rightarrow> Inr w)"
proof -
  have "map (send_bcast ck) lo @ Some obj # map (send_bcast ck) up = map (send_bcast ck) (lo @ v # up)"
    using assms(3) by simp
  moreover have "nat root_rank < length (lo @ v # up)"
    using assms(1,2) by (simp add: comm_size_def)
  ultimately have "(map (send_bcast ck) lo @ Some obj # map (send_bcast ck) up) ! nat root_rank =
      send_bcast ck ((lo @ v # up) ! nat root_rank)"
    by (simp only: nth_map)
  then show ?thesis
    using assms(1,2) by (simp add: comm_bcast_def comm_size_def)
qed

lemma bcast_scalar_or_buffer_eq:
  assumes "scalar_or_buffer v"
  shows "bcast ck lo up v root_rank =
     (v, map_sum id NewValue
           (comm_bcast (map (send_bcast ck) lo) v (map (send_bcast ck) up) root_rank))"
  using assms by (cases v) simp_all

text \<open>
  C10: for a scalar or an array \<open>v\<close>, \<open>bcast\<close> leaves the caller's object as it was,
  whatever else happens; and when \<open>root_rank\<close> is a rank of the group and the process of
  that rank passes a scalar or an array, the call returns that value, as an object of
  the transport's making. The model has no state besides the payload object.
\<close>

theorem bcast_scalar_buffer_leaves_argument:
  assumes "scalar_or_buffer v"
  shows "fst (bcast ck lo up v root_rank) = v \<and>
     (0 \<le> root_rank \<and> root_rank < int (comm_size lo up) \<and>
        scalar_or_buffer ((lo @ v # up) ! nat root_rank) \<longrightarrow>
      snd (bcast ck lo up v root_rank) = Inr (NewValue ((lo @ v # up) ! nat root_rank)))"
proof -
  have eq: "bcast ck lo up v root_rank =
     (v, map_sum id NewValue
           (comm_bcast (map (send_bcast ck) lo) v (map (send_bcast ck) up) root_rank))"
    by (rule bcast_scalar_or_buffer_eq [OF assms])
  have "snd (bcast ck lo up v root_rank) = Inr (NewValue ((lo @ v # up) ! nat root_rank))"
    if "0 \<le> root_rank" "root_rank < int (comm_size lo up)"
      "scalar_or_buffer ((lo @ v # up) ! nat root_rank)"
    using comm_bcast_nth [OF that(1,2) send_bcast_scalar_or_buffer [OF assms], of ck]
      send_bcast_scalar_or_buffer [OF that(3), of ck]
    by (simp add: eq)
  then show ?thesis by (simp add: eq)
qed

theorem bcast_scalar_buffer_leaves_argument_witness:
  "scalar_or_buffer (NdArray [2, 3]) \<and>
   fst (bcast False [NdArray [7, 8]] [Float 1] (NdArray [2, 3]) 0) = NdArray [2, 3] \<and>
   (0::int) \<le> 0 \<and> 0 < int (comm_size [NdArray [7, 8]] [Float 1]) \<and>
   scalar_or_buffer (([NdArray [7, 8]] @ NdArray [2, 3] # [Float 1]) ! nat 0) \<and>
   snd (bcast False [NdArray [7, 8]] [Float 1] (NdArray [2, 3]) 0) = Inr (NewValue (NdArray [7, 8]))"
proof -
  have h: "scalar_or_buffer (NdArray [2, 3])" by simp
  have r: "(0::int) \<le> 0 \<and> 0 < int (comm_size [NdArray [7, 8]] [Float 1]) \<and>
      scalar_or_buffer (([NdArray [7, 8]] @ NdArray [2, 3] # [Float 1]) ! nat 0)"
    by (simp add: comm_size_def)
  from bcast_scalar_buffer_leaves_argument [OF h, of False "[NdArray [7, 8]]" "[Float 1]" 0] r h
  show ?thesis by simp
qed

section \<open>Properties of reductions of distributed vectors\<close>

lemma send_DOUBLE_vector_ready:
  "vector_ready ck len p \<Longrightarrow> send_DOUBLE ck p = Some (get_local p) \<and> length (get_local p) = len"
  by (cases p) (auto split: if_splits)

lemma send_DOUBLE_vectors:
  "list_all (vector_ready ck len) ps \<Longrightarrow> map (send_DOUBLE ck) ps = map Some (map get_local ps)"
  by (auto simp: list_all_iff send_DOUBLE_vector_ready)

lemma get_local_lengths:
  "list_all (vector_ready ck len) ps \<Longrightarrow> list_all (\<lambda>buf. length buf = len) (map get_local ps)"
  by (auto simp: list_all_iff send_DOUBLE_vector_ready)

lemma Allreduce_SUM_vectors:
  assumes "list_all (vector_ready ck (length xs)) (lo @ up)"
  shows "Allreduce_SUM (map (send_DOUBLE ck) lo) xs (map (send_DOUBLE ck) up) =
     Inr (map (\<lambda>k. sum_list (map (\<lambda>buf. buf ! k) (map get_local lo @ xs # map get_local up)))
            [0..<length xs])"
proof -
  have l: "list_all (vector_ready ck (length xs)) lo" and u: "list_all (vector_ready ck (length xs)) up"
    using assms by simp_all
  have "list_all (\<lambda>buf. length buf = length xs) (map get_local lo @ map get_local up)"
    using get_local_lengths [OF l] get_local_lengths [OF u] by simp
  from Allreduce_SUM_Some [OF this] show ?thesis
    by (simp only: send_DOUBLE_vectors [OF l] send_DOUBLE_vectors [OF u])
qed

lemma segments_of_members:
  "map (\<lambda>buf. buf ! k) (map get_local lo @ xs # map get_local up) =
     map (\<lambda>p. get_local p ! k) (lo @ Vector xs n pending # up)"
  by simp

lemma allReduce_Vector_eq:
  assumes "vector_ready ck (length xs) (Vector xs n pending)"
    and "list_all (vector_ready ck (length xs)) (lo @ up)"
  shows "allReduce ck lo up (Vector xs n pending) op =
     (if str_lower op = ''sum''
      then (Vector (map (\<lambda>k. sum_list (map (\<lambda>p. get_local p ! k) (lo @ Vector xs n pending # up)))
                      [0..<length xs]) n False, Inr TheArgument)
      else if str_lower op = ''avg''
      then (Vector (map (\<lambda>k. sum_list (map (\<lambda>p. get_local p ! k) (lo @ Vector xs n pending # up)) /
                              real (comm_size lo up))
                      [0..<length xs]) n False, Inr TheArgument)
      else (Vector xs n pending, Inl (NotImplementedError (err_msg (str_lower op)))))"
proof -
  have g: "\<not> (ck \<and> n \<noteq> 1)" using assms(1) by (auto split: if_splits)
  have r: "Allreduce_SUM (map (send_DOUBLE ck) lo) (get_local (Vector xs n pending))
        (map (send_DOUBLE ck) up) =
      Inr (map (\<lambda>k. sum_list (map (\<lambda>p. get_local p ! k) (lo @ Vector xs n pending # up)))
            [0..<length xs])"
    using Allreduce_SUM_vectors [OF assms(2)]
    by (simp only: segments_of_members [of _ lo xs up n pending] get_local.simps)
  show ?thesis
    using g by (simp only: allReduce.simps r) (simp add: comp_def)
qed

text \<open>
  C4, as the code has it. The payload is a distributed vector that passes the assertion
  of the serial check when the check is on, and the other processes of the group hold
  such vectors with local segments of its length. With ``sum'' the local segment
  becomes, element by element, the sum of the local segments of the group; with ``avg''
  that sum divided by the size of the group. The vector comes out with no
  \<^verbatim>\<open>set_local\<close> pending, that is \<^verbatim>\<open>apply\<close> ran after \<^verbatim>\<open>set_local\<close>, and
  the call returns the object it was given.
\<close>

theorem allReduce_Vector_in_place:
  assumes "vector_ready ck (length xs) (Vector xs n pending)"
    and "list_all (vector_ready ck (length xs)) (lo @ up)"
  shows
   "(str_lower op = ''sum'' \<longrightarrow>
       allReduce ck lo up (Vector xs n pending) op =
         (Vector (map (\<lambda>k. sum_list (map (\<lambda>p. get_local p ! k) (lo @ Vector xs n pending # up)))
                    [0..<length xs]) n False, Inr TheArgument)) \<and>
    (str_lower op = ''avg'' \<longrightarrow>
       allReduce ck lo up (Vector xs n pending) op =
         (Vector (map (\<lambda>k. sum_list (map (\<lambda>p. get_local p ! k) (lo @ Vector xs n pending # up)) /
                            real (comm_size lo up))
                    [0..<length xs]) n False, Inr TheArgument))"
  by (simp only: allReduce_Vector_eq [OF assms]) simp

theorem allReduce_Vector_in_place_witness:
  "vector_ready True (length [3, 4::real]) (Vector [3, 4] 1 True) \<and>
   list_all (vector_ready True (length [3, 4::real])) ([Vector [1, 2] 1 False] @ []) \<and>
   str_lower ''Sum'' = ''sum'' \<and> str_lower ''Avg'' = ''avg'' \<and>
   allReduce True [Vector [1, 2] 1 False] [] (Vector [3, 4] 1 True) ''Sum'' =
     (Vector [4, 6] 1 False, Inr TheArgument) \<and>
   allReduce True [Vector [1, 2] 1 False] [] (Vector [3, 4] 1 True) ''Avg'' =
     (Vector [2, 3] 1 False, Inr TheArgument)"
proof -
  have h1: "vector_ready True (length [3, 4::real]) (Vector [3, 4] 1 True)"
    and h2: "list_all (vector_ready True (length [3, 4::real])) ([Vector [1, 2] 1 False] @ [])"
    by simp_all
  have s: "str_lower ''Sum'' = ''sum''" and a: "str_lower ''Avg'' = ''avg''"
    by (simp_all add: str_lower_def lower_char_def)
  have "allReduce True [Vector [1, 2] 1 False] [] (Vector [3, 4] 1 True) ''Sum'' =
     (Vector [4, 6] 1 False, Inr TheArgument)"
    using allReduce_Vector_in_place [OF h1 h2, of "''Sum''"] s
    by (simp add: upt_conv_Cons)
  moreover have "allReduce True [Vector [1, 2] 1 False] [] (Vector [3, 4] 1 True) ''Avg'' =
     (Vector [2, 3] 1 False, Inr TheArgument)"
    using allReduce_Vector_in_place [OF h1 h2, of "''Avg''"] a
    by (simp add: upt_conv_Cons comm_size_def)
  ultimately show ?thesis using h1 h2 s a by simp
qed

text \<open>
  The claim C4 as the specification words it, for every distributed vector, fails when
  the serial check is on and the vector is partitioned over two processes: the call
  raises the assertion error and leaves the vector as it was.
\<close>

theorem allReduce_Vector_serial_check_counterexample:
  "allReduce True [] [] (Vector [1] 2 False) ''sum'' = (Vector [1] 2 False, Inl AssertionError)"
  by simp

text \<open>
  In general: with the serial check on, a vector partitioned over a number of processes
  other than one raises the assertion error and is left as it was.
\<close>

lemma allReduce_Vector_serial_check_fails:
  "n \<noteq> 1 \<Longrightarrow>
     allReduce True lo up (Vector xs n pending) op = (Vector xs n pending, Inl AssertionError)"
  by simp

section \<open>Properties of reductions of multi-vectors\<close>

lemma entry_has_nvec: "has_nvec m p \<Longrightarrow> i < m \<Longrightarrow> entry i p = Some (getitem i p)"
  by (cases p) simp_all

lemma those_entries:
  assumes "list_all (has_nvec m) ps" and "i < m"
  shows "those (map (entry i) ps) = Some (map (getitem i) ps)"
proof -
  have "map (entry i) ps = map Some (map (getitem i) ps)"
    using assms by (auto simp: list_all_iff entry_has_nvec)
  then show ?thesis by (simp only: those_map_Some)
qed

lemma allReduce_loop_entries:
  assumes "list_all (has_nvec m) lo" and "list_all (has_nvec m) up" and "i + length es \<le> m"
    and "\<forall>j<length es. \<exists>r. snd (allReduce ck (map (getitem (i + j)) lo) (map (getitem (i + j)) up)
                                   (es ! j) op) = Inr r"
  shows "allReduce_loop ck lo up i es op =
     (map (\<lambda>j. fst (allReduce ck (map (getitem (i + j)) lo) (map (getitem (i + j)) up) (es ! j) op))
        [0..<length es], None)"
  using assms(3,4)
proof (induction es arbitrary: i)
  case Nil
  then show ?case by simp
next
  case (Cons e es)
  have i: "i < m" using Cons.prems(1) by simp
  obtain r where r: "snd (allReduce ck (map (getitem i) lo) (map (getitem i) up) e op) = Inr r"
    using Cons.prems(2) by fastforce
  have rest: "\<forall>j<length es. \<exists>r. snd (allReduce ck (map (getitem (Suc i + j)) lo)
      (map (getitem (Suc i + j)) up) (es ! j) op) = Inr r"
  proof (intro allI impI)
    fix j assume "j < length es"
    then have "Suc j < length (e # es)" by simp
    with Cons.prems(2) show "\<exists>r. snd (allReduce ck (map (getitem (Suc i + j)) lo)
      (map (getitem (Suc i + j)) up) (es ! j) op) = Inr r"
      by fastforce
  qed
  have len: "Suc i + length es \<le> m" using Cons.prems(1) by simp
  have loop: "allReduce_loop ck lo up (Suc i) es op =
     (map (\<lambda>j. fst (allReduce ck (map (getitem (Suc i + j)) lo) (map (getitem (Suc i + j)) up)
                       (es ! j) op)) [0..<length es], None)"
    by (rule Cons.IH [OF len rest])
  have upt: "[0..<length (e # es)] = 0 # map Suc [0..<length es]"
    by (simp add: upt_conv_Cons map_Suc_upt del: upt_Suc)
  obtain e' where e': "allReduce ck (map (getitem i) lo) (map (getitem i) up) e op = (e', Inr r)"
    using r by (cases "allReduce ck (map (getitem i) lo) (map (getitem i) up) e op") simp
  show ?case
    by (simp only: upt allReduce_loop.simps those_entries [OF assms(1) i]
          those_entries [OF assms(2) i] loop e')
       (simp add: comp_def e')
qed

text \<open>
  C5, as the code has it. The other processes hold multi-vectors with as many entries
  as the payload, and the reduction of each entry on its own, run across the entries of
  the same index, returns normally. Then \<open>allReduce\<close> returns the container it was
  given, and each entry is the object that the reduction of that entry alone leaves
  behind: a distributed vector holds the reduced values, an entry that is a scalar is
  as it was, since the value its reduction returns is dropped by the loop.
\<close>

theorem allReduce_MultiVector_entrywise:
  assumes "list_all (has_nvec (length es)) (lo @ up)"
    and "\<forall>i<length es. \<exists>r. snd (allReduce ck (map (getitem i) lo) (map (getitem i) up)
                                   (es ! i) op) = Inr r"
  shows "allReduce ck lo up (MultiVector es) op =
     (MultiVector
        (map (\<lambda>i. fst (allReduce ck (map (getitem i) lo) (map (getitem i) up) (es ! i) op))
           [0..<length es]),
      Inr TheArgument)"
proof -
  have l: "list_all (has_nvec (length es)) lo" and u: "list_all (has_nvec (length es)) up"
    using assms(1) by simp_all
  have "allReduce_loop ck lo up 0 es op =
     (map (\<lambda>j. fst (allReduce ck (map (getitem (0 + j)) lo) (map (getitem (0 + j)) up) (es ! j) op))
        [0..<length es], None)"
    by (rule allReduce_loop_entries [OF l u]) (simp_all add: assms(2))
  then show ?thesis by simp
qed

theorem allReduce_MultiVector_entrywise_witness:
  "list_all (has_nvec (length [Vector [10] 1 False, Vector [20] 1 False]))
     ([MultiVector [Vector [1] 1 False, Vector [2] 1 False]] @ []) \<and>
   allReduce False [MultiVector [Vector [1] 1 False, Vector [2] 1 False]] []
     (MultiVector [Vector [10] 1 False, Vector [20] 1 False]) ''sum'' =
     (MultiVector [Vector [11] 1 False, Vector [22] 1 False], Inr TheArgument)"
proof -
  let ?es = "[Vector [10] 1 False, Vector [20] 1 False]"
  let ?lo = "[MultiVector [Vector [1] 1 False, Vector [2] 1 False]]"
  have h1: "list_all (has_nvec (length ?es)) (?lo @ [])" by simp
  have s: "str_lower ''sum'' = ''sum''" by (simp add: str_lower_def lower_char_def)
  have h2: "\<forall>i<length ?es. \<exists>r. snd (allReduce False (map (getitem i) ?lo) (map (getitem i) [])
      (?es ! i) ''sum'') = Inr r"
    by (simp add: less_Suc_eq Allreduce_SUM_def s)
  from allReduce_MultiVector_entrywise [OF h1 h2] h1 show ?thesis
    by (simp add: upt_conv_Cons Allreduce_SUM_def s)
qed

text \<open>
  The claim C5 as the specification words it fails on its own example. Two processes
  each hold the multi-vector of the scalars 1, 2, 3; with ``sum'' the call returns the
  container with its entries 1, 2, 3, while the reductions of the single entries return
  2, 4 and 6.
\<close>

theorem allReduce_MultiVector_scalars_counterexample:
  "allReduce_at False [MultiVector [Integer 1, Integer 2, Integer 3],
                       MultiVector [Integer 1, Integer 2, Integer 3]] 0 ''sum'' =
     (MultiVector [Integer 1, Integer 2, Integer 3], Inr TheArgument) \<and>
   snd (allReduce_at False [Integer 1, Integer 1] 0 ''sum'') = Inr (NewValue (Integer 2)) \<and>
   snd (allReduce_at False [Integer 2, Integer 2] 0 ''sum'') = Inr (NewValue (Integer 4)) \<and>
   snd (allReduce_at False [Integer 3, Integer 3] 0 ''sum'') = Inr (NewValue (Integer 6))"
  by (simp add: allReduce_at_def Allreduce_SUM_def int32_of_def wrap32_def str_lower_def
        lower_char_def)

section \<open>Properties of the check of the operation\<close>

lemma allReduce_unknown_op_no_mutation:
  assumes "str_lower op \<noteq> ''sum''" and "str_lower op \<noteq> ''avg''"
  shows "fst (allReduce ck lo up v op) = v"
    and "fst (allReduce_loop ck lo up i es op) = es"
  using assms
proof (induction ck lo up v op and ck lo up i es op rule: allReduce_allReduce_loop.induct)
  case (8 is_serial_check lo up i e es op)
  then show ?case
    by (auto split: option.splits sum.splits prod.splits)
qed (auto split: sum.splits prod.splits option.splits)

lemma Allreduce_SUM_error: "Allreduce_SUM lo send up = Inl e \<Longrightarrow> e = CollectiveMismatch"
  by (auto simp: Allreduce_SUM_def split: option.splits if_splits)

lemma int32_of_error: "int32_of v = Inl e \<Longrightarrow> e = OverflowError"
  by (auto simp: int32_of_def split: if_splits)

lemma allReduce_known_op_no_NotImplementedError:
  assumes "str_lower op = ''sum'' \<or> str_lower op = ''avg''"
  shows "snd (allReduce ck lo up v op) \<noteq> Inl (NotImplementedError m)"
    and "snd (allReduce_loop ck lo up i es op) \<noteq> Some (NotImplementedError m)"
  using assms
proof (induction ck lo up v op and ck lo up i es op rule: allReduce_allReduce_loop.induct)
  case (8 is_serial_check lo up i e es op)
  show ?case
  proof (cases "those (map (entry i) lo)")
    case None
    then show ?thesis by simp
  next
    case lo_i: (Some lo_i)
    show ?thesis
    proof (cases "those (map (entry i) up)")
      case None
      then show ?thesis by (simp add: lo_i)
    next
      case up_i: (Some up_i)
      obtain e' res where call: "allReduce is_serial_check lo_i up_i e op = (e', res)"
        by (cases "allReduce is_serial_check lo_i up_i e op")
      show ?thesis
      proof (cases res)
        case (Inl err)
        have "snd (allReduce is_serial_check lo_i up_i e op) \<noteq> Inl (NotImplementedError m)"
          by (rule "8.IH"(1) [OF refl lo_i up_i "8.prems"])
        then show ?thesis by (simp add: lo_i up_i call Inl)
      next
        case (Inr r)
        have "snd (allReduce_loop is_serial_check lo up (Suc i) es op) \<noteq> Some (NotImplementedError m)"
          by (rule "8.IH"(2) [OF refl lo_i up_i call [symmetric] Inr "8.prems"])
        then show ?thesis by (auto simp: lo_i up_i call Inr split: prod.splits)
      qed
    qed
  qed
qed (auto split: sum.splits prod.splits option.splits simp: Let_def
        dest: Allreduce_SUM_error int32_of_error)

lemma allReduce_unknown_op_fails:
  assumes "str_lower op \<noteq> ''sum''" and "str_lower op \<noteq> ''avg''"
    and "str_lower op_ok = ''sum'' \<or> str_lower op_ok = ''avg''"
  shows "\<exists>r. snd (allReduce ck lo up v op_ok) = Inr r \<Longrightarrow>
      snd (allReduce ck lo up v op) =
        (if has_leaf v then Inl (NotImplementedError (err_msg (str_lower op))) else Inr TheArgument)"
    and "snd (allReduce_loop ck lo up i es op_ok) = None \<Longrightarrow>
      snd (allReduce_loop ck lo up i es op) =
        (if has_leaf_list es then Some (NotImplementedError (err_msg (str_lower op))) else None)"
  using assms
proof (induction ck lo up v op and ck lo up i es op rule: allReduce_allReduce_loop.induct)
  case (5 is_serial_check lo up es op)
  have "snd (allReduce_loop is_serial_check lo up 0 es op_ok) = None"
    using "5.prems"(1) by (auto split: prod.splits option.splits)
  from "5.IH" [OF this "5.prems"(2,3,4)] show ?case
    by (cases "allReduce_loop is_serial_check lo up 0 es op") (auto split: if_splits)
next
  case (8 is_serial_check lo up i e es op)
  note ok = "8.prems"(1)
  obtain lo_i where lo_i: "those (map (entry i) lo) = Some lo_i"
    using ok by (cases "those (map (entry i) lo)") simp_all
  obtain up_i where up_i: "those (map (entry i) up) = Some up_i"
    using ok by (cases "those (map (entry i) up)") (simp_all add: lo_i)
  obtain e_ok res_ok where call_ok: "allReduce is_serial_check lo_i up_i e op_ok = (e_ok, res_ok)"
    by (cases "allReduce is_serial_check lo_i up_i e op_ok")
  obtain r_ok where r_ok: "res_ok = Inr r_ok"
    using ok by (cases res_ok) (simp_all add: lo_i up_i call_ok)
  have rest_ok: "snd (allReduce_loop is_serial_check lo up (Suc i) es op_ok) = None"
    using ok by (simp add: lo_i up_i call_ok r_ok split: prod.splits)
  have "\<exists>r. snd (allReduce is_serial_check lo_i up_i e op_ok) = Inr r"
    by (simp add: call_ok r_ok)
  note first = "8.IH"(1) [OF refl lo_i up_i this "8.prems"(2,3,4)]
  obtain e' res where call: "allReduce is_serial_check lo_i up_i e op = (e', res)"
    by (cases "allReduce is_serial_check lo_i up_i e op")
  show ?case
  proof (cases "has_leaf e")
    case True
    then show ?thesis
      using first by (simp add: lo_i up_i call)
  next
    case False
    then have res: "res = Inr TheArgument"
      using first by (simp add: call)
    note rest = "8.IH"(2) [OF refl lo_i up_i call [symmetric] res rest_ok "8.prems"(2,3,4)]
    show ?thesis
      using rest False by (auto simp: lo_i up_i call res split: prod.splits)
  qed
qed (auto split: sum.splits if_splits simp: Let_def)

text \<open>
  C7, as the code has it. When the operation in lower case is neither ``sum'' nor
  ``avg'': the Null variant raises \<^verbatim>\<open>NotImplementedError\<close> for the unknown operation
  whatever the payload; the Grid variant leaves the payload as it was, whatever the
  payload and the group, and raises \<^verbatim>\<open>NotImplementedError\<close> for the unknown
  operation whenever the payload is or holds a scalar, an array or a distributed vector
  and the same call with a known operation returns normally. When the operation in
  lower case is ``sum'' or ``avg'', the Null variant returns its argument and the Grid
  variant raises no \<^verbatim>\<open>NotImplementedError\<close>.
\<close>

theorem allReduce_operation_check:
  "(str_lower op \<noteq> ''sum'' \<and> str_lower op \<noteq> ''avg'' \<longrightarrow>
      NullCollective_allReduce v op =
        (v, Inl (NotImplementedError
                   (''Unknown operation *'' @ op @ ''* in NullCollective.allReduce''))) \<and>
      fst (allReduce ck lo up v op) = v \<and>
      (has_leaf v \<and> (str_lower op_ok = ''sum'' \<or> str_lower op_ok = ''avg'') \<and>
         (\<exists>r. snd (allReduce ck lo up v op_ok) = Inr r) \<longrightarrow>
       snd (allReduce ck lo up v op) = Inl (NotImplementedError (err_msg (str_lower op))))) \<and>
   (str_lower op = ''sum'' \<or> str_lower op = ''avg'' \<longrightarrow>
      NullCollective_allReduce v op = (v, Inr TheArgument) \<and>
      (\<forall>m. snd (allReduce ck lo up v op) \<noteq> Inl (NotImplementedError m)))"
proof (intro conjI impI allI)
  assume "str_lower op \<noteq> ''sum'' \<and> str_lower op \<noteq> ''avg''"
  then show "NullCollective_allReduce v op =
        (v, Inl (NotImplementedError
                   (''Unknown operation *'' @ op @ ''* in NullCollective.allReduce'')))"
    by (simp add: NullCollective_allReduce_def)
next
  assume "str_lower op \<noteq> ''sum'' \<and> str_lower op \<noteq> ''avg''"
  then show "fst (allReduce ck lo up v op) = v"
    by (simp add: allReduce_unknown_op_no_mutation(1))
next
  assume u: "str_lower op \<noteq> ''sum'' \<and> str_lower op \<noteq> ''avg''"
    and k: "has_leaf v \<and> (str_lower op_ok = ''sum'' \<or> str_lower op_ok = ''avg'') \<and>
         (\<exists>r. snd (allReduce ck lo up v op_ok) = Inr r)"
  from u have u1: "str_lower op \<noteq> ''sum''" and u2: "str_lower op \<noteq> ''avg''" by simp_all
  from k have k1: "has_leaf v" and k2: "str_lower op_ok = ''sum'' \<or> str_lower op_ok = ''avg''"
    and k3: "\<exists>r. snd (allReduce ck lo up v op_ok) = Inr r" by simp_all
  from allReduce_unknown_op_fails(1) [OF u1 u2 k2 k3] k1
  show "snd (allReduce ck lo up v op) = Inl (NotImplementedError (err_msg (str_lower op)))"
    by simp
next
  assume "str_lower op = ''sum'' \<or> str_lower op = ''avg''"
  then show "NullCollective_allReduce v op = (v, Inr TheArgument)"
    by (auto simp: NullCollective_allReduce_def)
next
  fix m
  assume "str_lower op = ''sum'' \<or> str_lower op = ''avg''"
  then show "snd (allReduce ck lo up v op) \<noteq> Inl (NotImplementedError m)"
    by (rule allReduce_known_op_no_NotImplementedError(1))
qed

theorem allReduce_operation_check_witness:
  "str_lower ''Max'' \<noteq> ''sum'' \<and> str_lower ''Max'' \<noteq> ''avg'' \<and>
   NullCollective_allReduce (NdArray [2]) ''Max'' =
     (NdArray [2], Inl (NotImplementedError ''Unknown operation *Max* in NullCollective.allReduce'')) \<and>
   fst (allReduce False [NdArray [1]] [] (NdArray [2]) ''Max'') = NdArray [2] \<and>
   has_leaf (NdArray [2]) \<and> (str_lower ''SUM'' = ''sum'' \<or> str_lower ''SUM'' = ''avg'') \<and>
   snd (allReduce False [NdArray [1]] [] (NdArray [2]) ''SUM'') = Inr TheArgument \<and>
   snd (allReduce False [NdArray [1]] [] (NdArray [2]) ''Max'') =
     Inl (NotImplementedError ''Unknown operation *max* in MultipleSerialPDEsCollective.allReduce'') \<and>
   NullCollective_allReduce (NdArray [2]) ''SUM'' = (NdArray [2], Inr TheArgument) \<and>
   snd (allReduce False [NdArray [1]] [] (NdArray [2]) ''SUM'') \<noteq>
     Inl (NotImplementedError ''Unknown operation *sum* in MultipleSerialPDEsCollective.allReduce'')"
proof -
  have m: "str_lower ''Max'' = ''max''" and s: "str_lower ''SUM'' = ''sum''"
    by (simp_all add: str_lower_def lower_char_def)
  have ok: "snd (allReduce False [NdArray [1]] [] (NdArray [2]) ''SUM'') = Inr TheArgument"
    by (simp add: s Allreduce_SUM_def)
  note bad = allReduce_operation_check [of "''Max''" "NdArray [2]" False "[NdArray [1]]" "[]" "''SUM''",
      THEN conjunct1]
  note good = allReduce_operation_check [of "''SUM''" "NdArray [2]" False "[NdArray [1]]" "[]" "''SUM''",
      THEN conjunct2]
  show ?thesis
    using bad good ok by (simp add: m s err_msg_def)
qed

text \<open>
  The claim C7 as the specification words it, for every payload, fails on the Grid
  variant with the unknown operation ``max'': an empty multi-vector is returned with no
  error, since the loop over its entries makes no call, and in serial-check mode a
  vector partitioned over two processes raises the assertion error, before the
  operation is looked at.
\<close>

theorem allReduce_unknown_operation_counterexample:
  "str_lower ''max'' \<noteq> ''sum'' \<and> str_lower ''max'' \<noteq> ''avg'' \<and>
   allReduce False [] [] (MultiVector []) ''max'' = (MultiVector [], Inr TheArgument) \<and>
   allReduce True [] [] (Vector [1] 2 False) ''max'' = (Vector [1] 2 False, Inl AssertionError)"
  by (simp add: str_lower_def lower_char_def)

end
